theory Spec2Isabelle
  imports Main "HOL-Library.Monad_Syntax"
begin

section \<open>Cue model\<close>

text \<open>
  A cue as \<^verbatim>\<open>parseSRT\<close> builds it: \<^verbatim>\<open>{ index, start, end, text }\<close>.
  JavaScript numbers are modelled as mathematical integers (the claims speak of integer
  milliseconds; the two agree while magnitudes stay below \<open>2^53\<close>). The record is
  extensible, so that the object spread \<^verbatim>\<open>{ ...cue }\<close> of the source, which carries
  every other property of the object along, is the record update on a \<open>cue_scheme\<close>.
  The field \<^verbatim>\<open>end\<close> is written \<open>end'\<close>.
\<close>

record cue =
  index :: int
  start :: int
  end' :: int
  "text" :: string

section \<open>Shift engine (src/utils/srt-shifter.js, shiftTime)\<close>


definition cueInRange :: "'a cue_scheme \<Rightarrow> int option \<Rightarrow> int option \<Rightarrow> bool" where
  "cueInRange cue startTimeMs endTimeMs =
     (case (startTimeMs, endTimeMs) of
        (Some s, Some e) \<Rightarrow> start cue \<ge> s \<and> start cue \<le> e
      | _ \<Rightarrow> True)"

definition shiftTime ::
  "'a cue_scheme list \<Rightarrow> int \<Rightarrow> int option \<Rightarrow> int option \<Rightarrow> 'a cue_scheme list" where
  "shiftTime cues offsetMs startTimeMs endTimeMs =
     map (\<lambda>cue.
       if \<not> cueInRange cue startTimeMs endTimeMs then cue
       else
         let newStart = max 0 (start cue + offsetMs);
             newEnd = max 0 (end' cue + offsetMs)
         in cue\<lparr>start := newStart, end' := max newStart newEnd\<rparr>) cues"

text \<open>
  The specification's formula for one shifted cue, written from its words:
  \<open>newStart = max(0, start + offsetMs)\<close>, \<open>newEnd = max(newStart, max(0, end + offsetMs))\<close>.
\<close>

definition shifted :: "'a cue_scheme \<Rightarrow> int \<Rightarrow> 'a cue_scheme" where
  "shifted c offsetMs =
     c\<lparr>start := max 0 (start c + offsetMs),
       end' := max (max 0 (start c + offsetMs)) (max 0 (end' c + offsetMs))\<rparr>"



text \<open>Erasing the two time fields: what is left of a cue is what a shift may not touch.\<close>

definition untimed :: "'a cue_scheme \<Rightarrow> 'a cue_scheme" where
  "untimed c = c\<lparr>start := 0, end' := 0\<rparr>"

section \<open>Timestamp codec (src/utils/srt-shifter.js, parseTimestamp and formatTimestamp)\<close>

subsection \<open>Characters, trimming and the regular expressions\<close>

text \<open>
  A string is a list of 8-bit characters, read as code units below 256. \<^verbatim>\<open>\d\<close> is
  \<^verbatim>\<open>[0-9]\<close>. \<^verbatim>\<open>String.prototype.trim\<close> removes white space and line terminators at
  both ends; below 256 these are the code units 9 to 13, 32 and 160.
\<close>

definition isDigit :: "char \<Rightarrow> bool" where
  "isDigit c \<longleftrightarrow> 48 \<le> (of_char c :: nat) \<and> (of_char c :: nat) \<le> 57"

definition isSpace :: "char \<Rightarrow> bool" where
  "isSpace c \<longleftrightarrow> (of_char c :: nat) \<in> {9, 10, 11, 12, 13, 32, 160}"

definition trim :: "string \<Rightarrow> string" where
  "trim s = rev (dropWhile isSpace (rev (dropWhile isSpace s)))"

text \<open>
  The pieces of the four anchored regular expressions, each consuming a prefix of the
  input and returning what it captured with the rest: \<^verbatim>\<open>\d{n}\<close>, a character class
  (or a literal character), and the end anchor \<^verbatim>\<open>$\<close>.
\<close>

definition digitsN :: "nat \<Rightarrow> string \<Rightarrow> (string \<times> string) option" where
  "digitsN n s =
     (if n \<le> length s \<and> list_all isDigit (take n s) then Some (take n s, drop n s) else None)"

definition oneOf :: "string \<Rightarrow> string \<Rightarrow> (char \<times> string) option" where
  "oneOf cs s = (case s of [] \<Rightarrow> None | c # r \<Rightarrow> if c \<in> set cs then Some (c, r) else None)"

definition atEnd :: "string \<Rightarrow> 'a \<Rightarrow> 'a option" where
  "atEnd s x = (if s = [] then Some x else None)"

text \<open>
  \<^verbatim>\<open>/^(\d{1,2}):(\d{2}):(\d{2})[,.](\d{3})$/\<close>. The quantifier \<^verbatim>\<open>{1,2}\<close> is greedy: the
  match is tried with two digits for the first group, then with one.
\<close>

definition fullMatchN :: "nat \<Rightarrow> string \<Rightarrow> (string \<times> string \<times> string \<times> string) option" where
  "fullMatchN k s = do {
     (hours, r1) \<leftarrow> digitsN k s;
     (_, r2) \<leftarrow> oneOf '':'' r1;
     (minutes, r3) \<leftarrow> digitsN 2 r2;
     (_, r4) \<leftarrow> oneOf '':'' r3;
     (seconds, r5) \<leftarrow> digitsN 2 r4;
     (_, r6) \<leftarrow> oneOf '',.'' r5;
     (ms, r7) \<leftarrow> digitsN 3 r6;
     atEnd r7 (hours, minutes, seconds, ms)
   }"

definition fullMatch :: "string \<Rightarrow> (string \<times> string \<times> string \<times> string) option" where
  "fullMatch s = (case fullMatchN 2 s of Some g \<Rightarrow> Some g | None \<Rightarrow> fullMatchN 1 s)"

text \<open>\<^verbatim>\<open>/^(\d{1,2}):(\d{2}):(\d{2})$/\<close>\<close>

definition hmsMatchN :: "nat \<Rightarrow> string \<Rightarrow> (string \<times> string \<times> string) option" where
  "hmsMatchN k s = do {
     (hours, r1) \<leftarrow> digitsN k s;
     (_, r2) \<leftarrow> oneOf '':'' r1;
     (minutes, r3) \<leftarrow> digitsN 2 r2;
     (_, r4) \<leftarrow> oneOf '':'' r3;
     (seconds, r5) \<leftarrow> digitsN 2 r4;
     atEnd r5 (hours, minutes, seconds)
   }"

definition hmsMatch :: "string \<Rightarrow> (string \<times> string \<times> string) option" where
  "hmsMatch s = (case hmsMatchN 2 s of Some g \<Rightarrow> Some g | None \<Rightarrow> hmsMatchN 1 s)"

text \<open>\<^verbatim>\<open>/^(\d{1,2}):(\d{2})$/\<close>\<close>

definition msMatchN :: "nat \<Rightarrow> string \<Rightarrow> (string \<times> string) option" where
  "msMatchN k s = do {
     (minutes, r1) \<leftarrow> digitsN k s;
     (_, r2) \<leftarrow> oneOf '':'' r1;
     (seconds, r3) \<leftarrow> digitsN 2 r2;
     atEnd r3 (minutes, seconds)
   }"

definition msMatch :: "string \<Rightarrow> (string \<times> string) option" where
  "msMatch s = (case msMatchN 2 s of Some g \<Rightarrow> Some g | None \<Rightarrow> msMatchN 1 s)"

text \<open>\<^verbatim>\<open>/^(\d+)$/\<close>\<close>

definition secondsMatch :: "string \<Rightarrow> string option" where
  "secondsMatch s = (if s \<noteq> [] \<and> list_all isDigit s then Some s else None)"

subsection \<open>parseTimestamp\<close>

text \<open>
  \<^verbatim>\<open>parseInt(x, 10)\<close> is only ever applied to a captured group of digits, where it is the
  decimal value.
\<close>

definition parseInt :: "string \<Rightarrow> int" where
  "parseInt s = foldl (\<lambda>acc c. 10 * acc + int (of_char c - 48)) 0 s"

text \<open>
  The argument is \<open>Some\<close> of a string, or \<open>None\<close> for any value that is not a string
  (\<^verbatim>\<open>undefined\<close>, \<^verbatim>\<open>null\<close>, a number); the empty string is falsy.
\<close>

definition parseTimestamp :: "string option \<Rightarrow> int" where
  "parseTimestamp timestamp =
     (case timestamp of
        None \<Rightarrow> 0
      | Some ts \<Rightarrow>
          if ts = [] then 0
          else
            let trimmed = trim ts in
            case fullMatch trimmed of
              Some (hours, minutes, seconds, ms) \<Rightarrow>
                parseInt hours * 3600000 + parseInt minutes * 60000 +
                parseInt seconds * 1000 + parseInt ms
            | None \<Rightarrow>
               (case hmsMatch trimmed of
                  Some (hours, minutes, seconds) \<Rightarrow>
                    parseInt hours * 3600000 + parseInt minutes * 60000 +
                    parseInt seconds * 1000
                | None \<Rightarrow>
                   (case msMatch trimmed of
                      Some (minutes, seconds) \<Rightarrow>
                        parseInt minutes * 60000 + parseInt seconds * 1000
                    | None \<Rightarrow>
                       (case secondsMatch trimmed of
                          Some secs \<Rightarrow> parseInt secs * 1000
                        | None \<Rightarrow> 0))))"

text \<open>
  The desktop main process defines its own \<^verbatim>\<open>parseTimestamp\<close>, with the first two
  patterns only.
\<close>

definition parseTimestamp_desktop :: "string option \<Rightarrow> int" where
  "parseTimestamp_desktop timestamp =
     (case timestamp of
        None \<Rightarrow> 0
      | Some ts \<Rightarrow>
          if ts = [] then 0
          else
            let trimmed = trim ts in
            case fullMatch trimmed of
              Some (hours, minutes, seconds, ms) \<Rightarrow>
                parseInt hours * 3600000 + parseInt minutes * 60000 +
                parseInt seconds * 1000 + parseInt ms
            | None \<Rightarrow>
               (case hmsMatch trimmed of
                  Some (hours, minutes, seconds) \<Rightarrow>
                    parseInt hours * 3600000 + parseInt minutes * 60000 +
                    parseInt seconds * 1000
                | None \<Rightarrow> 0))"

subsection \<open>formatTimestamp\<close>

text \<open>
  \<^verbatim>\<open>%\<close> is the remainder that takes the sign of the dividend; \<^verbatim>\<open>Math.floor(a / b)\<close>
  with a positive \<open>b\<close> is \<open>a div b\<close>. \<^verbatim>\<open>toString\<close> writes an integer in decimal, with a
  minus sign when it is negative; \<^verbatim>\<open>padStart\<close> fills up on the left.
\<close>

definition jsRem :: "int \<Rightarrow> int \<Rightarrow> int" where
  "jsRem a b = sgn a * (\<bar>a\<bar> mod \<bar>b\<bar>)"

fun digitsOf :: "nat \<Rightarrow> string" where
  "digitsOf n =
     (if n < 10 then [char_of (48 + n)] else digitsOf (n div 10) @ [char_of (48 + n mod 10)])"

declare digitsOf.simps [simp del]

definition toString :: "int \<Rightarrow> string" where
  "toString n = (if n < 0 then CHR ''-'' # digitsOf (nat (- n)) else digitsOf (nat n))"

definition padStart :: "nat \<Rightarrow> char \<Rightarrow> string \<Rightarrow> string" where
  "padStart targetLength c s = replicate (targetLength - length s) c @ s"

definition formatTimestamp :: "int \<Rightarrow> string" where
  "formatTimestamp ms =
     (let hours = ms div 3600000;
          minutes = jsRem ms 3600000 div 60000;
          seconds = jsRem ms 60000 div 1000;
          milliseconds = jsRem ms 1000
      in padStart 2 CHR ''0'' (toString hours) @ '':'' @
         padStart 2 CHR ''0'' (toString minutes) @ '':'' @
         padStart 2 CHR ''0'' (toString seconds) @ '','' @
         padStart 3 CHR ''0'' (toString milliseconds))"

subsection \<open>The shapes of the specification\<close>

text \<open>
  The four recognised shapes, written from the words of the specification: hours (or,
  in the third shape, minutes) of one or two digits, minutes and seconds of exactly two
  digits, milliseconds of exactly three digits after a comma or a period; a bare
  non-negative integer is a non-empty run of digits.
\<close>

definition digitField :: "nat \<Rightarrow> string \<Rightarrow> bool" where
  "digitField n s \<longleftrightarrow> length s = n \<and> list_all isDigit s"

definition shortField :: "string \<Rightarrow> bool" where
  "shortField s \<longleftrightarrow> (length s = 1 \<or> length s = 2) \<and> list_all isDigit s"

definition fullForm :: "string \<Rightarrow> string \<Rightarrow> string \<Rightarrow> string \<Rightarrow> string \<Rightarrow> bool" where
  "fullForm t h m s f \<longleftrightarrow>
     shortField h \<and> digitField 2 m \<and> digitField 2 s \<and> digitField 3 f \<and>
     (t = h @ '':'' @ m @ '':'' @ s @ '','' @ f \<or> t = h @ '':'' @ m @ '':'' @ s @ ''.'' @ f)"

definition hmsForm :: "string \<Rightarrow> string \<Rightarrow> string \<Rightarrow> string \<Rightarrow> bool" where
  "hmsForm t h m s \<longleftrightarrow>
     shortField h \<and> digitField 2 m \<and> digitField 2 s \<and> t = h @ '':'' @ m @ '':'' @ s"

definition msForm :: "string \<Rightarrow> string \<Rightarrow> string \<Rightarrow> bool" where
  "msForm t m s \<longleftrightarrow> shortField m \<and> digitField 2 s \<and> t = m @ '':'' @ s"

definition secondsForm :: "string \<Rightarrow> bool" where
  "secondsForm t \<longleftrightarrow> t \<noteq> [] \<and> list_all isDigit t"

definition recognised :: "string \<Rightarrow> bool" where
  "recognised t \<longleftrightarrow>
     (\<exists>h m s f. fullForm t h m s f) \<or> (\<exists>h m s. hmsForm t h m s) \<or>
     (\<exists>m s. msForm t m s) \<or> secondsForm t"

section \<open>Boundary handlers for the shift operation\<close>













section \<open>Shift engine: helper lemmas\<close>


lemma shiftTime_nth:
  "i < length cues \<Longrightarrow>
   shiftTime cues off ws we ! i =
     (if cueInRange (cues ! i) ws we then shifted (cues ! i) off else cues ! i)"
  by (simp add: shiftTime_def shifted_def Let_def)




section \<open>Shift engine: the claims\<close>




text \<open>
  C2: in partial mode (both bounds given) shiftTime shifts the cue at position \<open>i\<close> if and
  only if \<open>windowStart \<le> start \<le> windowEnd\<close>, bounds included; a cue outside the window is
  returned unchanged (index, start, end, text); with an inverted window no cue is shifted.
\<close>

theorem shiftTime_partial_selectivity:
  assumes "i < length cues"
  shows "(ws \<le> start (cues ! i) \<and> start (cues ! i) \<le> we \<longrightarrow>
            shiftTime cues off (Some ws) (Some we) ! i = shifted (cues ! i) off) \<and>
         (\<not> (ws \<le> start (cues ! i) \<and> start (cues ! i) \<le> we) \<longrightarrow>
            shiftTime cues off (Some ws) (Some we) ! i = cues ! i) \<and>
         (we < ws \<longrightarrow> shiftTime cues off (Some ws) (Some we) = cues)"
proof -
  have nth: "shiftTime cues off (Some ws) (Some we) ! i =
      (if ws \<le> start (cues ! i) \<and> start (cues ! i) \<le> we
       then shifted (cues ! i) off else cues ! i)"
    using assms by (simp add: shiftTime_nth cueInRange_def)
  have inverted: "shiftTime cues off (Some ws) (Some we) = cues" if "we < ws"
  proof -
    have "\<not> cueInRange c (Some ws) (Some we)" for c :: "'a cue_scheme"
      using that by (simp add: cueInRange_def)
    then show ?thesis
      by (simp add: shiftTime_def)
  qed
  show ?thesis
    using nth inverted by simp
qed

text \<open>
  Scenario B of the specification (starts 1000, 20000, 50000, window [15000, 45000],
  offset +2000), the two bounds themselves, and an inverted window.
\<close>

theorem shiftTime_partial_selectivity_witness:
  "shiftTime [\<lparr>index = 1, start = 1000, end' = 3000, text = ''a''\<rparr>,
              \<lparr>index = 2, start = 20000, end' = 21000, text = ''b''\<rparr>,
              \<lparr>index = 3, start = 50000, end' = 52000, text = ''c''\<rparr>]
     2000 (Some 15000) (Some 45000) ! 1
     = \<lparr>index = 2, start = 22000, end' = 23000, text = ''b''\<rparr> \<and>
   shiftTime [\<lparr>index = 1, start = 1000, end' = 3000, text = ''a''\<rparr>,
              \<lparr>index = 2, start = 20000, end' = 21000, text = ''b''\<rparr>,
              \<lparr>index = 3, start = 50000, end' = 52000, text = ''c''\<rparr>]
     2000 (Some 15000) (Some 45000) ! 2
     = \<lparr>index = 3, start = 50000, end' = 52000, text = ''c''\<rparr> \<and>
   shiftTime [\<lparr>index = 1, start = 15000, end' = 16000, text = ''a''\<rparr>,
              \<lparr>index = 2, start = 45000, end' = 46000, text = ''b''\<rparr>]
     2000 (Some 15000) (Some 45000) ! 0
     = \<lparr>index = 1, start = 17000, end' = 18000, text = ''a''\<rparr> \<and>
   shiftTime [\<lparr>index = 1, start = 15000, end' = 16000, text = ''a''\<rparr>,
              \<lparr>index = 2, start = 45000, end' = 46000, text = ''b''\<rparr>]
     2000 (Some 15000) (Some 45000) ! 1
     = \<lparr>index = 2, start = 47000, end' = 48000, text = ''b''\<rparr> \<and>
   shiftTime [\<lparr>index = 1, start = 20000, end' = 21000, text = ''a''\<rparr>]
     2000 (Some 45000) (Some 15000)
     = [\<lparr>index = 1, start = 20000, end' = 21000, text = ''a''\<rparr>]"
  using
    shiftTime_partial_selectivity [of 1
      "[\<lparr>index = 1, start = 1000, end' = 3000, text = ''a''\<rparr>,
        \<lparr>index = 2, start = 20000, end' = 21000, text = ''b''\<rparr>,
        \<lparr>index = 3, start = 50000, end' = 52000, text = ''c''\<rparr>]" 15000 45000 2000]
    shiftTime_partial_selectivity [of 2
      "[\<lparr>index = 1, start = 1000, end' = 3000, text = ''a''\<rparr>,
        \<lparr>index = 2, start = 20000, end' = 21000, text = ''b''\<rparr>,
        \<lparr>index = 3, start = 50000, end' = 52000, text = ''c''\<rparr>]" 15000 45000 2000]
    shiftTime_partial_selectivity [of 0
      "[\<lparr>index = 1, start = 15000, end' = 16000, text = ''a''\<rparr>,
        \<lparr>index = 2, start = 45000, end' = 46000, text = ''b''\<rparr>]" 15000 45000 2000]
    shiftTime_partial_selectivity [of 1
      "[\<lparr>index = 1, start = 15000, end' = 16000, text = ''a''\<rparr>,
        \<lparr>index = 2, start = 45000, end' = 46000, text = ''b''\<rparr>]" 15000 45000 2000]
    shiftTime_partial_selectivity [of 0
      "[\<lparr>index = 1, start = 20000, end' = 21000, text = ''a''\<rparr>]" 45000 15000 2000]
  by (simp add: shifted_def)






text \<open>
  C9: for every collection, offset and mode, shiftTime keeps the length and the order of
  the collection, and the index and the text of every cue; with the two time fields erased
  the output is the input.
\<close>

theorem shiftTime_frame:
  "length (shiftTime cues off ws we) = length cues \<and>
   map index (shiftTime cues off ws we) = map index cues \<and>
   map text (shiftTime cues off ws we) = map text cues \<and>
   map untimed (shiftTime cues off ws we) = map untimed cues"
  by (simp add: shiftTime_def untimed_def Let_def)

theorem shiftTime_frame_witness:
  "map index (shiftTime [\<lparr>index = 1, start = 1000, end' = 3000, text = ''a''\<rparr>,
              \<lparr>index = 2, start = 20000, end' = 21000, text = ''b''\<rparr>]
          2000 (Some 15000) (Some 45000)) = [1, 2] \<and>
   map text (shiftTime [\<lparr>index = 1, start = 1000, end' = 3000, text = ''a''\<rparr>,
              \<lparr>index = 2, start = 20000, end' = 21000, text = ''b''\<rparr>]
          2000 (Some 15000) (Some 45000)) = [''a'', ''b'']"
  using shiftTime_frame [of "[\<lparr>index = 1, start = 1000, end' = 3000, text = ''a''\<rparr>,
              \<lparr>index = 2, start = 20000, end' = 21000, text = ''b''\<rparr>]"
          2000 "Some 15000" "Some 45000"]
  by simp

section \<open>Timestamp codec: helper lemmas\<close>

lemma colon_not_digit: "\<not> isDigit CHR '':''"
  by (simp add: isDigit_def)

lemma digitsN_Some_iff: "digitsN n s = Some (d, r) \<longleftrightarrow> s = d @ r \<and> digitField n d"
  by (auto simp add: digitsN_def digitField_def min_def)

lemma digitsN_append: "digitField n d \<Longrightarrow> digitsN n (d @ r) = Some (d, r)"
  by (simp add: digitsN_Some_iff)

lemma oneOf_Some_iff: "oneOf cs s = Some (c, r) \<longleftrightarrow> s = c # r \<and> c \<in> set cs"
  by (auto simp add: oneOf_def split: list.splits)

lemma atEnd_Some_iff: "atEnd s x = Some y \<longleftrightarrow> s = [] \<and> y = x"
  by (auto simp add: atEnd_def)

lemma digitsN_exact: "digitField n d \<Longrightarrow> digitsN n d = Some (d, [])"
  using digitsN_append [of n d "[]"] by simp

lemma fullMatchN_dest:
  "fullMatchN k t = Some (h, m, s, f) \<Longrightarrow>
     digitField k h \<and> digitField 2 m \<and> digitField 2 s \<and> digitField 3 f \<and>
     (t = h @ '':'' @ m @ '':'' @ s @ '','' @ f \<or> t = h @ '':'' @ m @ '':'' @ s @ ''.'' @ f)"
  by (auto simp add: fullMatchN_def Option.bind_eq_Some_conv digitsN_Some_iff oneOf_Some_iff
      atEnd_Some_iff)

lemma fullMatchN_intro:
  "digitField k h \<Longrightarrow> digitField 2 m \<Longrightarrow> digitField 2 s \<Longrightarrow> digitField 3 f \<Longrightarrow>
   t = h @ '':'' @ m @ '':'' @ s @ '','' @ f \<or> t = h @ '':'' @ m @ '':'' @ s @ ''.'' @ f \<Longrightarrow>
   fullMatchN k t = Some (h, m, s, f)"
  by (auto simp add: fullMatchN_def digitsN_append digitsN_exact oneOf_def atEnd_def)

lemma hmsMatchN_dest:
  "hmsMatchN k t = Some (h, m, s) \<Longrightarrow>
     digitField k h \<and> digitField 2 m \<and> digitField 2 s \<and> t = h @ '':'' @ m @ '':'' @ s"
  by (auto simp add: hmsMatchN_def Option.bind_eq_Some_conv digitsN_Some_iff oneOf_Some_iff
      atEnd_Some_iff)

lemma hmsMatchN_intro:
  "digitField k h \<Longrightarrow> digitField 2 m \<Longrightarrow> digitField 2 s \<Longrightarrow> t = h @ '':'' @ m @ '':'' @ s \<Longrightarrow>
   hmsMatchN k t = Some (h, m, s)"
  by (auto simp add: hmsMatchN_def digitsN_append digitsN_exact oneOf_def atEnd_def)

lemma msMatchN_dest:
  "msMatchN k t = Some (m, s) \<Longrightarrow> digitField k m \<and> digitField 2 s \<and> t = m @ '':'' @ s"
  by (auto simp add: msMatchN_def Option.bind_eq_Some_conv digitsN_Some_iff oneOf_Some_iff
      atEnd_Some_iff)

lemma msMatchN_intro:
  "digitField k m \<Longrightarrow> digitField 2 s \<Longrightarrow> t = m @ '':'' @ s \<Longrightarrow> msMatchN k t = Some (m, s)"
  by (auto simp add: msMatchN_def digitsN_append digitsN_exact oneOf_def atEnd_def)

text \<open>The run of digits at the front of a string fixes the first field.\<close>

lemma takeWhile_digits:
  "list_all isDigit d \<Longrightarrow> \<not> isDigit c \<Longrightarrow> takeWhile isDigit (d @ c # r) = d"
  by (induction d) auto

lemma comma_not_digit: "\<not> isDigit CHR '',''" and period_not_digit: "\<not> isDigit CHR ''.''"
  by (simp_all add: isDigit_def)

lemma fullMatchN_run:
  assumes "fullMatchN k t = Some g"
  shows "length (takeWhile isDigit t) = k \<and> length t = k + 10"
proof -
  obtain h m s f where g: "g = (h, m, s, f)"
    by (cases g) auto
  from fullMatchN_dest [OF assms [unfolded g]] show ?thesis
    by (auto simp add: digitField_def takeWhile_digits colon_not_digit)
qed

lemma hmsMatchN_run:
  assumes "hmsMatchN k t = Some g"
  shows "length (takeWhile isDigit t) = k \<and> length t = k + 6"
proof -
  obtain h m s where g: "g = (h, m, s)"
    by (cases g) auto
  from hmsMatchN_dest [OF assms [unfolded g]] show ?thesis
    by (auto simp add: digitField_def takeWhile_digits colon_not_digit)
qed

lemma msMatchN_run:
  assumes "msMatchN k t = Some g"
  shows "length (takeWhile isDigit t) = k \<and> length t = k + 3"
proof -
  obtain m s where g: "g = (m, s)"
    by (cases g) auto
  from msMatchN_dest [OF assms [unfolded g]] show ?thesis
    by (auto simp add: digitField_def takeWhile_digits colon_not_digit)
qed

lemma fullMatch_iff: "fullMatch t = Some (h, m, s, f) \<longleftrightarrow> fullForm t h m s f"
proof
  assume "fullMatch t = Some (h, m, s, f)"
  then have "fullMatchN 2 t = Some (h, m, s, f) \<or> fullMatchN 1 t = Some (h, m, s, f)"
    by (auto simp add: fullMatch_def split: option.splits)
  then show "fullForm t h m s f"
    by (auto dest!: fullMatchN_dest simp add: fullForm_def shortField_def digitField_def)
next
  assume form: "fullForm t h m s f"
  then have fields: "digitField (length h) h" "digitField 2 m" "digitField 2 s" "digitField 3 f"
    and t: "t = h @ '':'' @ m @ '':'' @ s @ '','' @ f \<or> t = h @ '':'' @ m @ '':'' @ s @ ''.'' @ f"
    and len: "length h = 1 \<or> length h = 2"
    by (auto simp add: fullForm_def shortField_def digitField_def)
  have match: "fullMatchN (length h) t = Some (h, m, s, f)"
    using fields t by (rule fullMatchN_intro)
  show "fullMatch t = Some (h, m, s, f)"
  proof (cases "length h = 2")
    case True
    with match show ?thesis
      by (simp add: fullMatch_def)
  next
    case False
    with len have one: "length h = 1"
      by simp
    have "fullMatchN 2 t = None"
    proof (cases "fullMatchN 2 t")
      case (Some g)
      from fullMatchN_run [OF Some] fullMatchN_run [OF match] one show ?thesis
        by simp
    qed simp
    with match one show ?thesis
      by (simp add: fullMatch_def)
  qed
qed

lemma hmsMatch_iff: "hmsMatch t = Some (h, m, s) \<longleftrightarrow> hmsForm t h m s"
proof
  assume "hmsMatch t = Some (h, m, s)"
  then have "hmsMatchN 2 t = Some (h, m, s) \<or> hmsMatchN 1 t = Some (h, m, s)"
    by (auto simp add: hmsMatch_def split: option.splits)
  then show "hmsForm t h m s"
    by (auto dest!: hmsMatchN_dest simp add: hmsForm_def shortField_def digitField_def)
next
  assume form: "hmsForm t h m s"
  then have fields: "digitField (length h) h" "digitField 2 m" "digitField 2 s"
    and t: "t = h @ '':'' @ m @ '':'' @ s"
    and len: "length h = 1 \<or> length h = 2"
    by (auto simp add: hmsForm_def shortField_def digitField_def)
  have match: "hmsMatchN (length h) t = Some (h, m, s)"
    using fields t by (rule hmsMatchN_intro)
  show "hmsMatch t = Some (h, m, s)"
  proof (cases "length h = 2")
    case True
    with match show ?thesis
      by (simp add: hmsMatch_def)
  next
    case False
    with len have one: "length h = 1"
      by simp
    have "hmsMatchN 2 t = None"
    proof (cases "hmsMatchN 2 t")
      case (Some g)
      from hmsMatchN_run [OF Some] hmsMatchN_run [OF match] one show ?thesis
        by simp
    qed simp
    with match one show ?thesis
      by (simp add: hmsMatch_def)
  qed
qed

lemma msMatch_iff: "msMatch t = Some (m, s) \<longleftrightarrow> msForm t m s"
proof
  assume "msMatch t = Some (m, s)"
  then have "msMatchN 2 t = Some (m, s) \<or> msMatchN 1 t = Some (m, s)"
    by (auto simp add: msMatch_def split: option.splits)
  then show "msForm t m s"
    by (auto dest!: msMatchN_dest simp add: msForm_def shortField_def digitField_def)
next
  assume form: "msForm t m s"
  then have fields: "digitField (length m) m" "digitField 2 s"
    and t: "t = m @ '':'' @ s"
    and len: "length m = 1 \<or> length m = 2"
    by (auto simp add: msForm_def shortField_def digitField_def)
  have match: "msMatchN (length m) t = Some (m, s)"
    using fields t by (rule msMatchN_intro)
  show "msMatch t = Some (m, s)"
  proof (cases "length m = 2")
    case True
    with match show ?thesis
      by (simp add: msMatch_def)
  next
    case False
    with len have one: "length m = 1"
      by simp
    have "msMatchN 2 t = None"
    proof (cases "msMatchN 2 t")
      case (Some g)
      from msMatchN_run [OF Some] msMatchN_run [OF match] one show ?thesis
        by simp
    qed simp
    with match one show ?thesis
      by (simp add: msMatch_def)
  qed
qed








lemma fullMatch_None_iff: "fullMatch t = None \<longleftrightarrow> (\<forall>h m s f. \<not> fullForm t h m s f)"
  by (cases "fullMatch t") (auto simp add: fullMatch_iff [symmetric])

lemma hmsMatch_None_iff: "hmsMatch t = None \<longleftrightarrow> (\<forall>h m s. \<not> hmsForm t h m s)"
  by (cases "hmsMatch t") (auto simp add: hmsMatch_iff [symmetric])

lemma msMatch_None_iff: "msMatch t = None \<longleftrightarrow> (\<forall>m s. \<not> msForm t m s)"
  by (cases "msMatch t") (auto simp add: msMatch_iff [symmetric])

lemma secondsMatch_None_iff: "secondsMatch t = None \<longleftrightarrow> \<not> secondsForm t"
  by (auto simp add: secondsMatch_def secondsForm_def)

lemmas matcher_defs =
  trim_def isSpace_def isDigit_def fullMatch_def fullMatchN_def hmsMatch_def hmsMatchN_def
  msMatch_def msMatchN_def secondsMatch_def digitsN_def oneOf_def atEnd_def

lemmas format_defs =
  formatTimestamp_def jsRem_def toString_def padStart_def digitsOf.simps char_of_def
  bit_Suc_0_iff

lemma recognised_iff:
  "recognised t \<longleftrightarrow>
     fullMatch t \<noteq> None \<or> hmsMatch t \<noteq> None \<or> msMatch t \<noteq> None \<or> secondsMatch t \<noteq> None"
  by (simp add: recognised_def fullMatch_None_iff hmsMatch_None_iff msMatch_None_iff
      secondsMatch_None_iff)

lemma form_nonempty:
  "fullForm (trim ts) h m s f \<or> hmsForm (trim ts) h m s \<or> msForm (trim ts) m s \<or>
   secondsForm (trim ts) \<Longrightarrow> ts \<noteq> []"
  by (auto simp add: trim_def fullForm_def hmsForm_def msForm_def secondsForm_def)

lemma parseTimestamp_full:
  assumes "fullForm (trim ts) h m s f"
  shows "parseTimestamp (Some ts) =
           parseInt h * 3600000 + parseInt m * 60000 + parseInt s * 1000 + parseInt f"
proof -
  have "ts \<noteq> []"
    using assms form_nonempty by blast
  moreover have "fullMatch (trim ts) = Some (h, m, s, f)"
    using assms by (simp add: fullMatch_iff)
  ultimately show ?thesis
    by (simp add: parseTimestamp_def)
qed




lemma parseTimestamp_unrecognised:
  assumes "\<not> recognised (trim ts)"
  shows "parseTimestamp (Some ts) = 0"
proof -
  have "fullMatch (trim ts) = None" "hmsMatch (trim ts) = None" "msMatch (trim ts) = None"
    "secondsMatch (trim ts) = None"
    using assms unfolding recognised_iff by blast+
  then show ?thesis
    by (simp add: parseTimestamp_def)
qed

section \<open>Timestamp codec: the claims\<close>



text \<open>
  C6: for an input that is not a string, for the empty string, and for a string that has
  none of the four shapes once trimmed, parseTimestamp returns 0 (the function is total:
  no branch of the source throws); \<open>parseTimestamp("not a time") = 0\<close>.
\<close>

theorem parseTimestamp_soft_failure:
  "parseTimestamp None = 0 \<and> parseTimestamp (Some []) = 0 \<and>
   (\<not> recognised (trim ts) \<longrightarrow> parseTimestamp (Some ts) = 0) \<and>
   parseTimestamp (Some ''not a time'') = 0"
proof -
  have "parseTimestamp (Some ''not a time'') = 0"
    by (simp add: parseTimestamp_def matcher_defs)
  then show ?thesis
    using parseTimestamp_unrecognised by (simp add: parseTimestamp_def)
qed

theorem parseTimestamp_soft_failure_witness:
  "\<not> recognised (trim ''1:2:3'') \<and> parseTimestamp (Some ''1:2:3'') = 0"
proof -
  have unrecognised: "\<not> recognised (trim ''1:2:3'')"
    by (simp add: recognised_iff matcher_defs)
  then show ?thesis
    using parseTimestamp_soft_failure [of "''1:2:3''"] by simp
qed

text \<open>
  Where neither the \<open>M:SS\<close> nor the bare-seconds pattern matches, the desktop function
  returns what the web function returns.
\<close>

lemma parseTimestamp_desktop_agrees:
  assumes "msMatch (trim ts) = None" "secondsMatch (trim ts) = None"
  shows "parseTimestamp_desktop (Some ts) = parseTimestamp (Some ts)"
  using assms
  by (simp add: parseTimestamp_def parseTimestamp_desktop_def Let_def split: option.splits)

text \<open>
  C3: the two parseTimestamp functions do not agree on every string. The desktop copy
  lacks the \<open>M:SS\<close> and the bare-seconds patterns of the web one: on \<open>"90"\<close> and on
  \<open>"1:30"\<close> the web function returns 90000 and the desktop function returns 0.
\<close>

theorem parseTimestamp_desktop_differs:
  "parseTimestamp (Some ''90'') = 90000 \<and> parseTimestamp_desktop (Some ''90'') = 0 \<and>
   parseTimestamp (Some ''1:30'') = 90000 \<and> parseTimestamp_desktop (Some ''1:30'') = 0"
  by (simp add: parseTimestamp_def parseTimestamp_desktop_def matcher_defs parseInt_def)

section \<open>Boundary handlers: the claim\<close>






section \<open>Round trip of the codec\<close>

lemma isDigit_char_of: "d < 10 \<Longrightarrow> isDigit (char_of (48 + d :: nat))"
  by (simp add: isDigit_def)

lemma digitsOf_digits: "list_all isDigit (digitsOf n) \<and> digitsOf n \<noteq> []"
proof (induction n rule: digitsOf.induct)
  case (1 n)
  show ?case
  proof (cases "n < 10")
    case True
    then show ?thesis
      by (simp add: digitsOf.simps [of n] isDigit_char_of)
  next
    case False
    with 1 show ?thesis
      by (simp add: digitsOf.simps [of n] isDigit_char_of)
  qed
qed

lemma parseInt_snoc: "parseInt (xs @ [c]) = 10 * parseInt xs + int (of_char c - 48)"
  by (simp add: parseInt_def)

lemma parseInt_digitsOf: "parseInt (digitsOf n) = int n"
proof (induction n rule: digitsOf.induct)
  case (1 n)
  show ?case
  proof (cases "n < 10")
    case True
    then show ?thesis
      by (simp add: digitsOf.simps [of n] parseInt_def)
  next
    case False
    then have "parseInt (digitsOf n) = 10 * int (n div 10) + int (n mod 10)"
      using 1 by (simp add: digitsOf.simps [of n] parseInt_snoc)
    then show ?thesis
      by presburger
  qed
qed

lemma parseInt_zeros: "parseInt (replicate k CHR ''0'' @ s) = parseInt s"
  by (induction k) (simp_all add: parseInt_def)

lemma length_digitsOf_1: "n < 10 \<Longrightarrow> length (digitsOf n) = 1"
  by (simp add: digitsOf.simps [of n])

lemma length_digitsOf_2: "10 \<le> n \<Longrightarrow> n < 100 \<Longrightarrow> length (digitsOf n) = 2"
  by (simp add: digitsOf.simps [of n] length_digitsOf_1)

lemma length_digitsOf_3: "100 \<le> n \<Longrightarrow> n < 1000 \<Longrightarrow> length (digitsOf n) = 3"
  by (simp add: digitsOf.simps [of n] length_digitsOf_2)

lemma length_digitsOf_ge: "length (digitsOf n) \<ge> 1"
  using digitsOf_digits [of n] by (cases "digitsOf n") auto

lemma length_digitsOf_large: "100 \<le> n \<Longrightarrow> length (digitsOf n) \<ge> 3"
proof -
  assume n: "100 \<le> n"
  then have "10 \<le> n div 10"
    by simp
  then have "length (digitsOf (n div 10)) \<ge> 2"
    using length_digitsOf_ge [of "n div 10 div 10"] by (simp add: digitsOf.simps [of "n div 10"])
  then show ?thesis
    using n by (simp add: digitsOf.simps [of n])
qed

lemma padStart_field2:
  assumes "0 \<le> n" "n < 100"
  shows "digitField 2 (padStart 2 CHR ''0'' (toString n))"
    and "parseInt (padStart 2 CHR ''0'' (toString n)) = n"
proof -
  have len: "length (digitsOf (nat n)) = 1 \<or> length (digitsOf (nat n)) = 2"
    using assms length_digitsOf_1 [of "nat n"] length_digitsOf_2 [of "nat n"] by fastforce
  have zero: "isDigit CHR ''0''"
    by (simp add: isDigit_def)
  show "digitField 2 (padStart 2 CHR ''0'' (toString n))"
    using assms len digitsOf_digits [of "nat n"] zero
    by (auto simp add: digitField_def padStart_def toString_def list_all_iff)
  show "parseInt (padStart 2 CHR ''0'' (toString n)) = n"
    using assms by (simp add: padStart_def toString_def parseInt_zeros parseInt_digitsOf)
qed

lemma padStart_field3:
  assumes "0 \<le> n" "n < 1000"
  shows "digitField 3 (padStart 3 CHR ''0'' (toString n))"
    and "parseInt (padStart 3 CHR ''0'' (toString n)) = n"
proof -
  have len: "length (digitsOf (nat n)) = 1 \<or> length (digitsOf (nat n)) = 2 \<or>
      length (digitsOf (nat n)) = 3"
    using assms length_digitsOf_1 [of "nat n"] length_digitsOf_2 [of "nat n"]
      length_digitsOf_3 [of "nat n"] by fastforce
  have zero: "isDigit CHR ''0''"
    by (simp add: isDigit_def)
  show "digitField 3 (padStart 3 CHR ''0'' (toString n))"
    using assms len digitsOf_digits [of "nat n"] zero
    by (auto simp add: digitField_def padStart_def toString_def list_all_iff)
  show "parseInt (padStart 3 CHR ''0'' (toString n)) = n"
    using assms by (simp add: padStart_def toString_def parseInt_zeros parseInt_digitsOf)
qed

lemma digit_not_space: "isDigit c \<Longrightarrow> \<not> isSpace c"
  by (auto simp add: isDigit_def isSpace_def)

lemma trim_id:
  assumes "s \<noteq> []" "\<not> isSpace (hd s)" "\<not> isSpace (last s)"
  shows "trim s = s"
proof -
  have "dropWhile isSpace s = s"
    using assms(1,2) by (cases s) auto
  moreover have "dropWhile isSpace (rev s) = rev s"
    using assms(1,3) by (cases "rev s") (auto simp add: hd_rev [symmetric])
  ultimately show ?thesis
    by (simp add: trim_def)
qed

lemma jsRem_nonneg: "0 \<le> a \<Longrightarrow> 0 < b \<Longrightarrow> jsRem a b = a mod b"
  by (cases "a = 0") (simp_all add: jsRem_def)

lemma digitField_ends:
  assumes "digitField n d" "0 < n"
  shows "d \<noteq> []" "isDigit (hd d)" "isDigit (last d)"
  using assms by (auto simp add: digitField_def list_all_iff)

lemma split_ms:
  fixes ms :: int
  shows "ms div 3600000 * 3600000 + ms mod 3600000 div 60000 * 60000 +
         ms mod 60000 div 1000 * 1000 + ms mod 1000 = ms"
proof -
  have a: "ms mod 60000 mod 1000 = ms mod 1000"
    by (rule mod_mod_cancel) simp
  have b: "ms mod 3600000 mod 60000 = ms mod 60000"
    by (rule mod_mod_cancel) simp
  have "ms mod 60000 div 1000 * 1000 + ms mod 1000 = ms mod 60000"
    using div_mult_mod_eq [of "ms mod 60000" 1000] a by simp
  moreover have "ms mod 3600000 div 60000 * 60000 + ms mod 60000 = ms mod 3600000"
    using div_mult_mod_eq [of "ms mod 3600000" 60000] b by simp
  moreover have "ms div 3600000 * 3600000 + ms mod 3600000 = ms"
    by simp
  ultimately show ?thesis
    by linarith
qed

lemma formatTimestamp_nonneg:
  assumes "0 \<le> ms"
  shows "formatTimestamp ms =
     padStart 2 CHR ''0'' (toString (ms div 3600000)) @ '':'' @
     padStart 2 CHR ''0'' (toString (ms mod 3600000 div 60000)) @ '':'' @
     padStart 2 CHR ''0'' (toString (ms mod 60000 div 1000)) @ '','' @
     padStart 3 CHR ''0'' (toString (ms mod 1000))"
  using assms by (simp add: formatTimestamp_def jsRem_nonneg Let_def)

lemma formatTimestamp_trim:
  assumes "0 \<le> ms"
  shows "trim (formatTimestamp ms) = formatTimestamp ms"
proof (rule trim_id)
  let ?H = "padStart 2 CHR ''0'' (toString (ms div 3600000))"
  let ?F = "padStart 3 CHR ''0'' (toString (ms mod 1000))"
  have h: "0 \<le> ms div 3600000"
    using assms by simp
  have H: "?H \<noteq> []" "isDigit (hd ?H)"
    using h digitsOf_digits [of "nat (ms div 3600000)"]
    by (auto simp add: padStart_def toString_def isDigit_def hd_append list_all_iff)
  have F: "?F \<noteq> []" "isDigit (last ?F)"
    using padStart_field3 (1) [of "ms mod 1000"] digitField_ends [of 3 ?F] by simp_all
  show "formatTimestamp ms \<noteq> []"
    using H by (simp add: formatTimestamp_nonneg [OF assms])
  show "\<not> isSpace (hd (formatTimestamp ms))"
    using H by (simp add: formatTimestamp_nonneg [OF assms] digit_not_space)
  show "\<not> isSpace (last (formatTimestamp ms))"
    using F by (simp add: formatTimestamp_nonneg [OF assms] digit_not_space)
qed

lemma round_trip_below:
  assumes "0 \<le> ms" "ms < 360000000"
  shows "parseTimestamp (Some (formatTimestamp ms)) = ms"
proof -
  let ?h = "ms div 3600000" and ?m = "ms mod 3600000 div 60000"
    and ?s = "ms mod 60000 div 1000" and ?f = "ms mod 1000"
  let ?H = "padStart 2 CHR ''0'' (toString ?h)" and ?M = "padStart 2 CHR ''0'' (toString ?m)"
    and ?S = "padStart 2 CHR ''0'' (toString ?s)" and ?F = "padStart 3 CHR ''0'' (toString ?f)"
  have h: "0 \<le> ?h" "?h < 100"
    using assms by simp_all
  have m: "0 \<le> ?m" "?m < 100"
  proof -
    have "ms mod 3600000 < 3600000"
      by simp
    then show "?m < 100"
      by simp
  qed simp
  have s: "0 \<le> ?s" "?s < 100"
  proof -
    have "ms mod 60000 < 60000"
      by simp
    then show "?s < 100"
      by simp
  qed simp
  have f: "0 \<le> ?f" "?f < 1000"
    by simp_all
  have fields: "digitField 2 ?H" "digitField 2 ?M" "digitField 2 ?S" "digitField 3 ?F"
    using padStart_field2 (1) [OF h] padStart_field2 (1) [OF m] padStart_field2 (1) [OF s]
      padStart_field3 (1) [OF f] by simp_all
  have "fullForm (formatTimestamp ms) ?H ?M ?S ?F"
    using fields by (simp add: fullForm_def shortField_def digitField_def
        formatTimestamp_nonneg [OF assms(1)])
  then have "fullForm (trim (formatTimestamp ms)) ?H ?M ?S ?F"
    by (simp add: formatTimestamp_trim [OF assms(1)])
  then have "parseTimestamp (Some (formatTimestamp ms)) =
      parseInt ?H * 3600000 + parseInt ?M * 60000 + parseInt ?S * 1000 + parseInt ?F"
    by (rule parseTimestamp_full)
  also have "\<dots> = ?h * 3600000 + ?m * 60000 + ?s * 1000 + ?f"
    using padStart_field2 (2) [OF h] padStart_field2 (2) [OF m] padStart_field2 (2) [OF s]
      padStart_field3 (2) [OF f] by simp
  also have "\<dots> = ms"
    by (rule split_ms)
  finally show ?thesis .
qed

lemma hours_field_long:
  assumes "360000000 \<le> ms"
  shows "padStart 2 CHR ''0'' (toString (ms div 3600000)) = digitsOf (nat (ms div 3600000))"
    and "length (digitsOf (nat (ms div 3600000))) \<ge> 3"
proof -
  have "100 \<le> ms div 3600000"
    using assms by simp
  then have big: "100 \<le> nat (ms div 3600000)" and pos: "\<not> ms div 3600000 < 0"
    by simp_all
  show len: "length (digitsOf (nat (ms div 3600000))) \<ge> 3"
    using big by (rule length_digitsOf_large)
  show "padStart 2 CHR ''0'' (toString (ms div 3600000)) = digitsOf (nat (ms div 3600000))"
    using len pos by (simp add: padStart_def toString_def)
qed

lemma round_trip_above:
  assumes "360000000 \<le> ms"
  shows "\<not> recognised (trim (formatTimestamp ms))"
proof -
  let ?t = "formatTimestamp ms"
  let ?H = "digitsOf (nat (ms div 3600000))"
  have nonneg: "0 \<le> ms"
    using assms by simp
  obtain r where t: "?t = ?H @ CHR '':'' # r"
    using formatTimestamp_nonneg [OF nonneg] hours_field_long (1) [OF assms] by simp
  have run: "takeWhile isDigit ?t = ?H"
    unfolding t using digitsOf_digits [of "nat (ms div 3600000)"] colon_not_digit
    by (simp add: takeWhile_digits)
  have long: "length (takeWhile isDigit ?t) \<ge> 3"
    using run hours_field_long (2) [OF assms] by simp
  have "fullMatch ?t = None"
  proof (cases "fullMatch ?t")
    case (Some g)
    then have "fullMatchN 2 ?t = Some g \<or> fullMatchN 1 ?t = Some g"
      by (auto simp add: fullMatch_def split: option.splits)
    with long show ?thesis
      by (auto dest: fullMatchN_run)
  qed simp
  moreover have "hmsMatch ?t = None"
  proof (cases "hmsMatch ?t")
    case (Some g)
    then have "hmsMatchN 2 ?t = Some g \<or> hmsMatchN 1 ?t = Some g"
      by (auto simp add: hmsMatch_def split: option.splits)
    with long show ?thesis
      by (auto dest: hmsMatchN_run)
  qed simp
  moreover have "msMatch ?t = None"
  proof (cases "msMatch ?t")
    case (Some g)
    then have "msMatchN 2 ?t = Some g \<or> msMatchN 1 ?t = Some g"
      by (auto simp add: msMatch_def split: option.splits)
    with long show ?thesis
      by (auto dest: msMatchN_run)
  qed simp
  moreover have "secondsMatch ?t = None"
    unfolding t by (simp add: secondsMatch_def colon_not_digit)
  ultimately show ?thesis
    by (simp add: recognised_iff formatTimestamp_trim [OF nonneg])
qed

text \<open>
  C10: the codec round-trips below 100 hours: for \<open>0 \<le> ms < 360000000\<close>,
  \<open>parseTimestamp(formatTimestamp(ms)) = ms\<close>; from \<open>360000000\<close> on the hours field that
  formatTimestamp writes has more than two digits, the result has none of the four
  shapes, and \<open>parseTimestamp(formatTimestamp(ms)) = 0\<close>.
\<close>

theorem timestamp_round_trip:
  "(0 \<le> ms \<and> ms < 360000000 \<longrightarrow> parseTimestamp (Some (formatTimestamp ms)) = ms) \<and>
   (360000000 \<le> ms \<longrightarrow>
      length (padStart 2 CHR ''0'' (toString (ms div 3600000))) > 2 \<and>
      \<not> recognised (trim (formatTimestamp ms)) \<and>
      parseTimestamp (Some (formatTimestamp ms)) = 0)"
proof -
  have "parseTimestamp (Some (formatTimestamp ms)) = 0" if "360000000 \<le> ms"
    using round_trip_above [OF that] by (rule parseTimestamp_unrecognised)
  moreover have "length (padStart 2 CHR ''0'' (toString (ms div 3600000))) > 2"
    if "360000000 \<le> ms"
    using hours_field_long [OF that] by simp
  ultimately show ?thesis
    using round_trip_below round_trip_above by blast
qed

theorem timestamp_round_trip_witness:
  "parseTimestamp (Some (formatTimestamp 359999999)) = 359999999 \<and>
   formatTimestamp 359999999 = ''99:59:59,999'' \<and>
   parseTimestamp (Some (formatTimestamp 360000000)) = 0 \<and>
   formatTimestamp 360000000 = ''100:00:00,000''"
proof -
  have "formatTimestamp 359999999 = ''99:59:59,999''"
    by (simp add: format_defs)
  moreover have "formatTimestamp 360000000 = ''100:00:00,000''"
    by (simp add: format_defs numeral_2_eq_2)
  ultimately show ?thesis
    using timestamp_round_trip [of 359999999] timestamp_round_trip [of 360000000] by simp
qed

end
